theory Spec2Isabelle
  imports Complex_Main "HOL-Library.Sublist" "HOL-Library.Char_ord" "HOL-Library.List_Lexorder"
    "HOL-Library.AList"
begin

section \<open>Python strings\<close>

text \<open>
  A Python \<open>str\<close> is modelled as a \<open>string\<close>; the characters of the model are the
  ASCII ones. Whitespace is what \<open>str.split()\<close> and \<open>str.strip()\<close> treat as such in
  that range: space, the controls 0x09 to 0x0D and 0x1C to 0x1F.
\<close>

definition is_space :: "char \<Rightarrow> bool" where
  "is_space c = (c \<in> set [CHR '' '', CHR 0x09, CHR 0x0A, CHR 0x0B, CHR 0x0C, CHR 0x0D,
                            CHR 0x1C, CHR 0x1D, CHR 0x1E, CHR 0x1F])"

text \<open>\<open>s.strip()\<close>\<close>

definition strip :: "string \<Rightarrow> string" where
  "strip s = rev (dropWhile is_space (rev (dropWhile is_space s)))"

text \<open>
  \<open>s.split()\<close>: the maximal runs of non-whitespace characters, in order. \<open>words_acc w s\<close>
  scans \<open>s\<close> with the word read so far in \<open>w\<close>.
\<close>

fun words_acc :: "string \<Rightarrow> string \<Rightarrow> string list" where
  "words_acc w [] = (if w = [] then [] else [w])"
| "words_acc w (c # cs) =
     (if is_space c then (if w = [] then words_acc [] cs else w # words_acc [] cs)
      else words_acc (w @ [c]) cs)"

definition split :: "string \<Rightarrow> string list" where
  "split s = words_acc [] s"

text \<open>\<open>' '.join(words)\<close>\<close>

fun join :: "string list \<Rightarrow> string" where
  "join [] = []"
| "join [w] = w"
| "join (w # v # ws) = w @ CHR '' '' # join (v # ws)"

text \<open>\<open>s.lower()\<close> on ASCII: the letters A to Z move to a to z.\<close>

definition lower_char :: "char \<Rightarrow> char" where
  "lower_char c =
     (let n = (of_char c :: nat) in if 65 \<le> n \<and> n \<le> 90 then char_of (n + 32) else c)"

definition lower :: "string \<Rightarrow> string" where
  "lower s = map lower_char s"

text \<open>\<open>s.startswith(p)\<close> and \<open>p in s\<close> (a contiguous substring).\<close>

definition startswith :: "string \<Rightarrow> string \<Rightarrow> bool" where
  "startswith s p = prefix p s"

definition str_in :: "string \<Rightarrow> string \<Rightarrow> bool" where
  "str_in p s = sublist p s"

text \<open>
  \<open>re.sub(r'<[^>]+>', '<placeholder>', s)\<close>: at a \<open><\<close>, the pattern matches when the
  characters up to the next \<open>></\<close> are at least one and that \<open>></\<close> exists; the scan goes on
  after the match. Elsewhere the character is copied.
\<close>

function re_sub_placeholder :: "string \<Rightarrow> string" where
  "re_sub_placeholder [] = []"
| "re_sub_placeholder (c # cs) =
     (if c = CHR ''<'' \<and> takeWhile (\<lambda>x. x \<noteq> CHR ''>'') cs \<noteq> []
           \<and> dropWhile (\<lambda>x. x \<noteq> CHR ''>'') cs \<noteq> []
      then ''<placeholder>'' @ re_sub_placeholder (tl (dropWhile (\<lambda>x. x \<noteq> CHR ''>'') cs))
      else c # re_sub_placeholder cs)"
  by pat_completeness auto
termination
proof (relation "measure length")
  fix c :: char and cs :: string
  have "length (dropWhile (\<lambda>x. x \<noteq> CHR ''>'') cs) \<le> length cs"
    by (rule length_dropWhile_le)
  then have "length (tl (dropWhile (\<lambda>x. x \<noteq> CHR ''>'') cs)) \<le> length cs"
    by simp
  then show "(tl (dropWhile (\<lambda>x. x \<noteq> CHR ''>'') cs), c # cs) \<in> measure length"
    by simp
qed simp_all

text \<open>\<open>s.split(sep)[0]\<close>: the text before the first occurrence of \<open>sep\<close>, all of \<open>s\<close> if none.\<close>

fun before_first :: "string \<Rightarrow> string \<Rightarrow> string" where
  "before_first sep [] = []"
| "before_first sep (c # cs) = (if prefix sep (c # cs) then [] else c # before_first sep cs)"

text \<open>
  SQLite's \<open>text LIKE pattern\<close> with the default settings: \<open>%\<close> stands for any run of
  characters, \<open>_\<close> for any one character, and letters compare without case.
\<close>

fun like :: "string \<Rightarrow> string \<Rightarrow> bool" where
  "like [] [] = True"
| "like [] (c # s) = False"
| "like (p # ps) [] = (p = CHR ''%'' \<and> like ps [])"
| "like (p # ps) (c # s) =
     (if p = CHR ''%'' then like ps (c # s) \<or> like (p # ps) s
      else if p = CHR ''_'' then like ps s
      else lower_char p = lower_char c \<and> like ps s)"

text \<open>\<open>list(dict.fromkeys(xs))\<close>: the first occurrence of each element, in order.\<close>

fun dedup_acc :: "'a list \<Rightarrow> 'a list \<Rightarrow> 'a list" where
  "dedup_acc seen [] = []"
| "dedup_acc seen (x # xs) =
     (if x \<in> set seen then dedup_acc seen xs else x # dedup_acc (x # seen) xs)"

definition dedup :: "'a list \<Rightarrow> 'a list" where
  "dedup xs = dedup_acc [] xs"

section \<open>The command database\<close>

text \<open>The dataclass \<open>VPPCommand\<close>; a row of the table \<open>commands\<close>.\<close>

record vpp_command =
  path :: string
  short_help :: string
  function_name :: string
  file_path :: string
  category :: string

text \<open>
  The table \<open>commands\<close>, in insertion order. The column \<open>path\<close> is declared
  \<open>UNIQUE\<close>: a table the code can hold satisfies \<open>unique_paths\<close>.
\<close>

type_synonym db = "vpp_command list"

definition unique_paths :: "db \<Rightarrow> bool" where
  "unique_paths d = distinct (map path d)"

text \<open>\<open>SELECT ... WHERE path = ?\<close> followed by \<open>fetchone()\<close>.\<close>

definition select_path_eq :: "db \<Rightarrow> string \<Rightarrow> vpp_command option" where
  "select_path_eq d p = find (\<lambda>r. path r = p) d"

text \<open>\<open>SELECT ... WHERE path LIKE ? ORDER BY path\<close> followed by \<open>fetchall()\<close>.\<close>

definition select_path_like :: "db \<Rightarrow> string \<Rightarrow> vpp_command list" where
  "select_path_like d pat = sort_key path (filter (\<lambda>r. like pat (path r)) d)"

subsection \<open>\<open>_normalize_command\<close>\<close>

definition normalizations :: "(string \<times> string) list" where
  "normalizations =
     [(''interfaces'', ''interface''),
      (''routes'', ''route''),
      (''tunnels'', ''tunnel''),
      (''policies'', ''policy''),
      (''associations'', ''association''),
      (''addresses'', ''address'')]"

definition normalize_command :: "string \<Rightarrow> string" where
  "normalize_command command =
     (let words = split command in
      if length words \<ge> 2 then
        (case map_of normalizations (words ! 1) of
           Some singular \<Rightarrow> join (words[1 := singular])
         | None \<Rightarrow>
             (case find (\<lambda>(plural, singular).
                       startswith plural (words ! 1)
                       \<or> startswith (words ! 1) (take (length (words ! 1)) plural))
                     normalizations of
                Some (plural, singular) \<Rightarrow> join (words[1 := singular])
              | None \<Rightarrow> command))
      else command)"

subsection \<open>\<open>_commands_similar\<close>\<close>

text \<open>
  The quotient \<open>len(intersection) / len(union)\<close> is a float in the source; it is the exact
  rational here. Both agree on the comparison with 0.5 for lists of any length a machine holds.
\<close>

definition commands_similar :: "string \<Rightarrow> string \<Rightarrow> bool" where
  "commands_similar cmd1 cmd2 =
     (let words1 = split (lower cmd1);
          words2 = split (lower cmd2)
      in if words1 = words2 then True
         else
           let cmd1_str = join words1;
               cmd2_str = join words2
           in if str_in cmd1_str cmd2_str \<or> str_in cmd2_str cmd1_str then True
              else
                let intersection = set words1 \<inter> set words2;
                    union = set words1 \<union> set words2;
                    similarity = (if union \<noteq> {}
                                  then rat_of_nat (card intersection) / rat_of_nat (card union)
                                  else 0)
                in similarity > 1 / 2)"

subsection \<open>\<open>_find_similar_commands\<close>\<close>

text \<open>\<open>limit\<close> is the default 5 at the one call site.\<close>

definition find_similar_commands :: "db \<Rightarrow> string \<Rightarrow> string list" where
  "find_similar_commands d command =
     (let words = split (lower command);
          suggestions =
            concat (map (\<lambda>word.
                      if length word > 2
                      then map path (take 5 (select_path_like d (''%'' @ word @ ''%'')))
                      else [])
                    words)
      in take 5 (dedup suggestions))"

subsection \<open>\<open>validate_command\<close>\<close>

text \<open>The values a verdict holds, and the verdict: a Python dict, in the order of its literal.\<close>

datatype pyval = Bool bool | Str string | StrList "string list"

type_synonym verdict = "(string \<times> pyval) list"

definition has_key :: "verdict \<Rightarrow> string \<Rightarrow> bool" where
  "has_key v k = (k \<in> set (map fst v))"

definition valid_verdict :: "vpp_command \<Rightarrow> verdict \<Rightarrow> verdict" where
  "valid_verdict row extra =
     [(''valid'', Bool True), (''path'', Str (path row)), (''help'', Str (short_help row)),
      (''category'', Str (category row))] @ extra"

text \<open>The test of the loop over \<open>matches\<close> in the placeholder branch (lines 204 to 209).\<close>

definition structural_accept :: "string \<Rightarrow> nat \<Rightarrow> vpp_command \<Rightarrow> bool" where
  "structural_accept base_cmd cmd_word_count match =
     (let match_word_count = length (split (path match))
      in startswith (path match) base_cmd
         \<and> \<bar>int match_word_count - int cmd_word_count\<bar> \<le> 1
         \<and> (match_word_count = cmd_word_count
              \<or> int match_word_count = int cmd_word_count - 1))"

text \<open>
  The placeholder branch (lines 183 to 212). \<open>None\<close> stands for control leaving the branch
  without a \<open>return\<close>.
\<close>

definition placeholder_branch :: "db \<Rightarrow> string \<Rightarrow> verdict option" where
  "placeholder_branch d command =
     (let command_with_placeholders = re_sub_placeholder command;
          command_base = strip (before_first ''<placeholder>'' command_with_placeholders)
      in if str_in ''<placeholder>'' command_with_placeholders \<or> str_in ''<'' command then
           if command_base \<noteq> [] then
             let cmd_parts = split command_base
             in if length cmd_parts \<ge> 2 then
                  let base_cmd = join (take 2 cmd_parts);
                      matches = select_path_like d (base_cmd @ ''%'');
                      cmd_word_count = length (split command)
                  in (case (if matches \<noteq> []
                            then find (structural_accept base_cmd cmd_word_count) matches
                            else None) of
                        Some match \<Rightarrow> Some (valid_verdict match [(''similar'', Bool True)])
                      | None \<Rightarrow>
                          Some [(''valid'', Bool False),
                                (''suggestions'', StrList (map path (take 3 matches))),
                                (''reason'',
                                 Str ''Command structure with placeholder not found in database'')])
                else None
           else None
         else None)"

text \<open>The test of the loop over \<open>partial_matches\<close> (lines 237 to 241).\<close>

definition fuzzy_accept :: "string \<Rightarrow> vpp_command \<Rightarrow> bool" where
  "fuzzy_accept command match =
     (commands_similar command (path match)
      \<and> int (length (split (path match))) \<ge> int (length (split command)) - 1)"

text \<open>The rows the loop over \<open>partial_matches\<close> runs through (lines 225 to 232).\<close>

definition partial_matches :: "db \<Rightarrow> string \<Rightarrow> vpp_command list" where
  "partial_matches d command =
     (case split command of
        [] \<Rightarrow> []
      | first_word # _ \<Rightarrow> select_path_like d (first_word @ ''%''))"

definition validate_command :: "db \<Rightarrow> string \<Rightarrow> verdict" where
  "validate_command d command0 =
     (let command = strip command0
      in if command = [] then
           [(''valid'', Bool False), (''suggestions'', StrList []),
            (''reason'', Str ''Empty command'')]
         else
           (case select_path_eq d command of
              Some row \<Rightarrow> valid_verdict row []
            | None \<Rightarrow>
                (case placeholder_branch d command of
                   Some v \<Rightarrow> v
                 | None \<Rightarrow>
                     (case select_path_eq d (normalize_command command) of
                        Some row \<Rightarrow> valid_verdict row [(''normalized'', Bool True)]
                      | None \<Rightarrow>
                          (case find (fuzzy_accept command) (partial_matches d command) of
                             Some match \<Rightarrow> valid_verdict match [(''similar'', Bool True)]
                           | None \<Rightarrow>
                               [(''valid'', Bool False),
                                (''suggestions'',
                                 StrList (find_similar_commands d command))])))))"

subsection \<open>\<open>get_command_completions\<close>\<close>

definition get_command_completions :: "db \<Rightarrow> string \<Rightarrow> string list" where
  "get_command_completions d partial_command =
     map path (take 20 (select_path_like d (partial_command @ ''%'')))"

section \<open>The validator of AI responses\<close>

subsection \<open>The regular expressions of the table of known hallucinations\<close>

text \<open>
  The patterns of the table are sequences of literal text and starred character classes.
  \<open>re_match_here\<close> says whether the pattern matches a prefix of the text; \<open>re_search\<close> is
  \<open>re.search(pattern, text, re.IGNORECASE)\<close> read as a truth value.
\<close>

datatype re_item = Lit string | Star "char \<Rightarrow> bool"

fun re_match_here :: "re_item list \<Rightarrow> string \<Rightarrow> bool" where
  "re_match_here [] s = True"
| "re_match_here (Lit l # r) s = (prefix (lower l) s \<and> re_match_here r (drop (length l) s))"
| "re_match_here (Star P # r) [] = re_match_here r []"
| "re_match_here (Star P # r) (c # cs) =
     (re_match_here r (c # cs) \<or> (P c \<and> re_match_here (Star P # r) cs))"

fun re_search_from :: "re_item list \<Rightarrow> string \<Rightarrow> bool" where
  "re_search_from r [] = re_match_here r []"
| "re_search_from r (c # cs) = (re_match_here r (c # cs) \<or> re_search_from r cs)"

definition re_search :: "re_item list \<Rightarrow> string \<Rightarrow> bool" where
  "re_search r s = re_search_from r (lower s)"

subsection \<open>\<open>KNOWN_HALLUCINATIONS\<close> and \<open>_check_known_hallucination\<close>\<close>

text \<open>An entry: the pattern as written, the pattern as parsed, \<open>correct\<close> and \<open>reason\<close>.\<close>

definition KNOWN_HALLUCINATIONS :: "(string \<times> re_item list \<times> string \<times> string) list" where
  "KNOWN_HALLUCINATIONS =
     [(''trace add <interface[^>]*>'',
       [Lit ''trace add <interface'', Star (\<lambda>c. c \<noteq> CHR ''>''), Lit ''>''],
       ''trace add <input-graph-node>'',
       ''trace add requires input-graph-node, not interface name''),
      (''trace add <interface_name>'',
       [Lit ''trace add <interface_name>''],
       ''trace add <input-graph-node>'',
       ''trace add requires input-graph-node, not interface name''),
      (''trace add.*interface'',
       [Lit ''trace add'', Star (\<lambda>c. c \<noteq> CHR 0x0A), Lit ''interface''],
       ''trace add <input-graph-node>'',
       ''trace add requires input-graph-node, not interface name''),
      (''show trace max <number'',
       [Lit ''show trace max <number''],
       ''show trace [max COUNT]'',
       ''show trace max takes COUNT directly, not <number_of_packets>''),
      (''show trace detail'',
       [Lit ''show trace detail''],
       ''show trace [max COUNT]'',
       ''show trace does not have a '' @ [CHR 0x22] @ ''detail'' @ [CHR 0x22] @ '' option'')]"

record hallucination =
  is_hallucination :: bool
  pattern :: string
  correct :: string
  reason :: string

definition check_known_hallucination :: "string \<Rightarrow> hallucination option" where
  "check_known_hallucination command =
     (case find (\<lambda>(pat, re, cor, rea). re_search re command) KNOWN_HALLUCINATIONS of
        Some (pat, re, cor, rea) \<Rightarrow>
          Some \<lparr>is_hallucination = True, pattern = pat, correct = cor, reason = rea\<rparr>
      | None \<Rightarrow> None)"

subsection \<open>\<open>_extract_commands_from_text\<close>\<close>

text \<open>\<open>re.findall(r'`([^`]+)`', text)\<close>\<close>

function backtick_commands :: "string \<Rightarrow> string list" where
  "backtick_commands [] = []"
| "backtick_commands (c # cs) =
     (if c = CHR 0x60 \<and> takeWhile (\<lambda>x. x \<noteq> CHR 0x60) cs \<noteq> []
           \<and> dropWhile (\<lambda>x. x \<noteq> CHR 0x60) cs \<noteq> []
      then takeWhile (\<lambda>x. x \<noteq> CHR 0x60) cs
             # backtick_commands (tl (dropWhile (\<lambda>x. x \<noteq> CHR 0x60) cs))
      else backtick_commands cs)"
  by pat_completeness auto
termination
proof (relation "measure length")
  fix c :: char and cs :: string
  have "length (dropWhile (\<lambda>x. x \<noteq> CHR 0x60) cs) \<le> length cs"
    by (rule length_dropWhile_le)
  then have "length (tl (dropWhile (\<lambda>x. x \<noteq> CHR 0x60) cs)) \<le> length cs"
    by simp
  then show "(tl (dropWhile (\<lambda>x. x \<noteq> CHR 0x60) cs), c # cs) \<in> measure length"
    by simp
qed simp_all

text \<open>\<open>text.split('\n')\<close>, and the same for any one separating character.\<close>

fun split_on :: "char \<Rightarrow> string \<Rightarrow> string list" where
  "split_on sep [] = [[]]"
| "split_on sep (c # cs) =
     (if c = sep then [] # split_on sep cs
      else (case split_on sep cs of
              [] \<Rightarrow> [[c]]
            | l # ls \<Rightarrow> (c # l) # ls))"

text \<open>Removing the prefix \<open>vppctl\<close> and a space, as all three places do.\<close>

definition remove_vppctl :: "string \<Rightarrow> string" where
  "remove_vppctl cmd = (if startswith cmd ''vppctl '' then strip (drop 7 cmd) else cmd)"

definition is_digit :: "char \<Rightarrow> bool" where
  "is_digit c = (let n = (of_char c :: nat) in 48 \<le> n \<and> n \<le> 57)"

definition is_bullet :: "char \<Rightarrow> bool" where
  "is_bullet c = (is_digit c \<or> c = CHR ''.'' \<or> c = CHR ''-'' \<or> c = CHR ''*'')"

definition list_verbs :: "string list" where
  "list_verbs = [''show'', ''set'', ''create'', ''delete'', ''ip'', ''lcp'', ''trace'', ''pcap'',
                 ''clear'', ''save'']"

text \<open>
  One line of the pass over list items: the test
  \<open>re.match(r'^[\d\.\-\*]\s*(show|set|...)', line.lower())\<close>, then the text after the bullet
  and its whitespace (\<open>parts[1]\<close> of the \<open>re.split\<close>), cut at the separators.
\<close>

definition list_item_command :: "string \<Rightarrow> string list" where
  "list_item_command line0 =
     (let line = strip line0
      in case line of
           [] \<Rightarrow> []
         | b # rest \<Rightarrow>
             if is_bullet b
                \<and> list_ex (\<lambda>verb. prefix verb (dropWhile is_space (lower rest))) list_verbs
             then
               let cmd_part = remove_vppctl (strip (dropWhile is_space rest));
                   cmd = strip (before_first '' This ''
                           (before_first '' for ''
                             (before_first '' to '' (before_first '' - '' cmd_part))));
                   cmd_base = re_sub_placeholder cmd
               in if cmd_base \<noteq> [] \<and> length (split cmd_base) \<ge> 1 then [cmd_base] else []
             else [])"

definition standalone_verbs :: "string list" where
  "standalone_verbs = [''show '', ''set '', ''create '', ''delete '', ''ip '', ''lcp '']"

definition generic_words :: "string list" where
  "generic_words = [''the'', ''this'', ''these'', ''command'', ''use'']"

definition standalone_command :: "string \<Rightarrow> string list" where
  "standalone_command line0 =
     (let line = strip line0
      in if list_ex (\<lambda>verb. startswith line verb) standalone_verbs
            \<and> length (split line) \<ge> 2
            \<and> \<not> list_ex (\<lambda>word. str_in word (lower line)) generic_words
         then [split line ! 0 @ '' '' @ split line ! 1]
         else [])"

text \<open>The last loop: strip, drop what is empty or seen.\<close>

fun unique_commands :: "string list \<Rightarrow> string list \<Rightarrow> string list" where
  "unique_commands seen [] = []"
| "unique_commands seen (cmd0 # cmds) =
     (let cmd = strip cmd0
      in if cmd \<noteq> [] \<and> cmd \<notin> set seen \<and> length (split cmd) \<ge> 1
         then cmd # unique_commands (cmd # seen) cmds
         else unique_commands seen cmds)"

definition extract_commands_from_text :: "string \<Rightarrow> string list" where
  "extract_commands_from_text text =
     (let from_backticks =
            concat (map (\<lambda>cmd0.
                      let cmd = remove_vppctl (strip cmd0)
                      in if cmd \<noteq> [] \<and> length (split cmd) \<ge> 1 then [cmd] else [])
                    (backtick_commands text));
          lines = split_on (CHR 0x0A) text;
          from_lists = concat (map list_item_command lines);
          from_lines = concat (map standalone_command lines)
      in unique_commands [] (from_backticks @ from_lists @ from_lines))"

subsection \<open>\<open>validate_ai_response\<close>\<close>

text \<open>
  The report. The two dicts are association lists in insertion order, updated in place.
  \<open>confidence\<close> is a float in the source and the exact quotient here.
\<close>

record report =
  valid_commands :: "string list"
  invalid_commands :: "string list"
  suggestions :: "(string \<times> string list) list"
  known_hallucinations :: "(string \<times> hallucination) list"
  confidence :: rat

datatype py_error = KeyError

text \<open>
  The body of the loop over the candidates, on the four accumulators (the field
  \<open>confidence\<close> is set after the loop). Reading a key that a verdict lacks raises.
\<close>

definition scan_step :: "db \<Rightarrow> string \<Rightarrow> report \<Rightarrow> py_error + report" where
  "scan_step d cmd st =
     (case check_known_hallucination cmd of
        Some hallucination_check \<Rightarrow>
          Inr (st\<lparr>invalid_commands := invalid_commands st @ [cmd],
                  known_hallucinations :=
                    AList.update cmd hallucination_check (known_hallucinations st),
                  suggestions :=
                    AList.update cmd [correct hallucination_check] (suggestions st)\<rparr>)
      | None \<Rightarrow>
          (let result = validate_command d cmd
           in case map_of result ''valid'' of
                None \<Rightarrow> Inl KeyError
              | Some v \<Rightarrow>
                  if v = Bool True then
                    Inr (st\<lparr>valid_commands := valid_commands st @ [cmd]\<rparr>)
                  else
                    (case map_of result ''suggestions'' of
                       None \<Rightarrow> Inl KeyError
                     | Some sv \<Rightarrow>
                         Inr (st\<lparr>invalid_commands := invalid_commands st @ [cmd],
                                 suggestions :=
                                   (case sv of
                                      StrList (x # xs) \<Rightarrow>
                                        AList.update cmd (x # xs) (suggestions st)
                                    | _ \<Rightarrow> suggestions st)\<rparr>))))"

fun scan_loop :: "db \<Rightarrow> report \<Rightarrow> string list \<Rightarrow> py_error + report" where
  "scan_loop d st [] = Inr st"
| "scan_loop d st (cmd # cmds) =
     (case scan_step d cmd st of
        Inl e \<Rightarrow> Inl e
      | Inr st' \<Rightarrow> scan_loop d st' cmds)"

definition validate_ai_response :: "db \<Rightarrow> string \<Rightarrow> py_error + report" where
  "validate_ai_response d ai_response =
     (let potential_commands = extract_commands_from_text ai_response
      in case scan_loop d
                \<lparr>valid_commands = [], invalid_commands = [], suggestions = [],
                 known_hallucinations = [], confidence = 0\<rparr>
                potential_commands of
           Inl e \<Rightarrow> Inl e
         | Inr st \<Rightarrow>
             Inr (st\<lparr>confidence :=
                        (if potential_commands \<noteq> []
                         then rat_of_nat (length (valid_commands st))
                              / rat_of_nat (length potential_commands)
                         else 1)\<rparr>))"

section \<open>Completion: \<open>get_vpp_completions\<close>\<close>

text \<open>\<open>re.match(r'^[a-zA-Z][a-zA-Z0-9_-]*$', word)\<close> on a word of \<open>split\<close>.\<close>

definition is_alpha :: "char \<Rightarrow> bool" where
  "is_alpha c = (let n = (of_char c :: nat) in (65 \<le> n \<and> n \<le> 90) \<or> (97 \<le> n \<and> n \<le> 122))"

definition completion_word :: "string \<Rightarrow> bool" where
  "completion_word word =
     (case word of
        [] \<Rightarrow> False
      | c # cs \<Rightarrow>
          is_alpha c
          \<and> list_all (\<lambda>x. is_alpha x \<or> is_digit x \<or> x = CHR ''_'' \<or> x = CHR ''-'') cs)"

text \<open>The completions read off the reply of the dataplane to the query (lines 243 to 258).\<close>

definition parse_vpp_completions :: "string \<Rightarrow> string list" where
  "parse_vpp_completions stdout =
     (if stdout \<noteq> [] then
        concat (map (\<lambda>line0.
                  let line = strip line0
                  in if line = [] \<or> startswith line ''DBGvpp'' \<or> startswith line ''vpp#''
                     then []
                     else filter completion_word (split line))
                (split_on (CHR 0x0A) (strip stdout)))
      else [])"

text \<open>\<open>sorted(list(set(xs)))\<close>\<close>

definition sorted_set :: "string list \<Rightarrow> string list" where
  "sorted_set xs = sort (remdups xs)"

text \<open>\<open>SELECT DISTINCT path ... WHERE path LIKE ? ORDER BY path LIMIT 50\<close>\<close>

definition select_distinct_paths_like :: "db \<Rightarrow> string \<Rightarrow> string list" where
  "select_distinct_paths_like d pat =
     take 50 (remdups_adj (map path (select_path_like d pat)))"

definition normalize_part :: "string \<Rightarrow> string" where
  "normalize_part part =
     (if part = ''int'' then ''interface''
      else if part = ''addr'' then ''address''
      else part)"

text \<open>
  The next tokens read off the commands matching the search patterns (lines 310 to 327).
  The source walks a set of commands and fills a set of tokens, which is then sorted, so
  the order of the walk has no effect.
\<close>

definition next_tokens_of :: "string list \<Rightarrow> string list \<Rightarrow> string list \<Rightarrow> string list" where
  "next_tokens_of parts normalized_parts matching_commands =
     (let target_len = length normalized_parts
      in concat (map (\<lambda>cmd.
                   let cmd_parts = split cmd
                   in if length cmd_parts > target_len then
                        let next_token = cmd_parts ! target_len
                        in if length parts > 0 \<and> length parts = length normalized_parts then
                             let last_part = last parts
                             in if last_part = [] \<or> startswith next_token last_part
                                   \<or> last_part \<in> set [''int'', ''interface'', ''addr'', ''address'']
                                then [next_token] else []
                           else [next_token]
                      else [])
                 matching_commands))"

text \<open>
  \<open>stdout\<close> is what \<open>execute_vppctl\<close> returns for the query: the reply of the dataplane,
  empty when there is none.
\<close>

definition get_vpp_completions :: "db \<Rightarrow> string \<Rightarrow> string \<Rightarrow> string list" where
  "get_vpp_completions d stdout partial_command =
     (let completions = parse_vpp_completions stdout
      in if completions \<noteq> [] then sorted_set completions
         else
           let parts = split (strip partial_command)
           in if parts = [] then []
              else
                let normalized_parts = map normalize_part parts;
                    search_patterns = [join parts @ '' %'', join normalized_parts @ '' %''];
                    matching_commands =
                      remdups (concat (map (select_distinct_paths_like d) search_patterns));
                    completions = sorted_set (next_tokens_of parts normalized_parts matching_commands)
                in if matching_commands \<noteq> [] \<and> completions \<noteq> [] then completions
                   else
                     let db_completions = get_command_completions d partial_command;
                         parts = split partial_command;
                         next_tokens =
                           concat (map (\<lambda>comp.
                                     let comp_parts = split comp
                                     in if length comp_parts > length parts
                                        then [comp_parts ! length parts] else [])
                                   (take 30 db_completions))
                     in if db_completions \<noteq> [] \<and> next_tokens \<noteq> [] then sorted_set next_tokens
                        else [])"

section \<open>Auxiliary notions and sample data\<close>

text \<open>A word as \<open>split\<close> yields it: not empty and free of whitespace.\<close>

definition is_word :: "string \<Rightarrow> bool" where
  "is_word w = (w \<noteq> [] \<and> list_all (\<lambda>c. \<not> is_space c) w)"

text \<open>What \<open>_normalize_command\<close> puts in place of the second word, if anything.\<close>

definition fold_plural :: "string \<Rightarrow> string option" where
  "fold_plural w =
     (case map_of normalizations w of
        Some singular \<Rightarrow> Some singular
      | None \<Rightarrow>
          (case find (\<lambda>(plural, singular).
                    startswith plural w \<or> startswith w (take (length w) plural))
                  normalizations of
             Some (plural, singular) \<Rightarrow> Some singular
           | None \<Rightarrow> None))"

text \<open>A row as the parser builds it, for the sample catalogs below.\<close>

definition sample_row :: "string \<Rightarrow> vpp_command" where
  "sample_row p =
     \<lparr>path = p, short_help = ''help'', function_name = ''fn'', file_path = ''cli.c'',
      category = ''other''\<rparr>"

text \<open>The catalog of three signatures of the completion example.\<close>

definition catalog3 :: db where
  "catalog3 = [sample_row ''show interface'', sample_row ''show interface address'',
               sample_row ''show ip fib'']"

section \<open>Properties of the string functions\<close>

lemma words_acc_word:
  "list_all (\<lambda>c. \<not> is_space c) u \<Longrightarrow> words_acc w (u @ r) = words_acc (w @ u) r"
  by (induction u arbitrary: w) simp_all

lemma words_acc_are_words:
  "w = [] \<or> is_word w \<Longrightarrow> x \<in> set (words_acc w s) \<Longrightarrow> is_word x"
proof (induction s arbitrary: w)
  case Nil
  then show ?case by (auto split: if_splits)
next
  case (Cons c cs)
  show ?case
  proof (cases "is_space c")
    case True
    with Cons.prems have "x = w \<and> w \<noteq> [] \<or> x \<in> set (words_acc [] cs)"
      by (auto split: if_splits)
    then show ?thesis
      using Cons.prems(1) Cons.IH [of "[]"] by auto
  next
    case False
    then have "is_word (w @ [c])"
      using Cons.prems(1) by (auto simp: is_word_def)
    moreover have "x \<in> set (words_acc (w @ [c]) cs)"
      using Cons.prems(2) False by simp
    ultimately show ?thesis
      using Cons.IH [of "w @ [c]"] by blast
  qed
qed

lemma split_are_words: "x \<in> set (split s) \<Longrightarrow> is_word x"
  unfolding split_def using words_acc_are_words [of "[]" x s] by simp

lemma split_join: "list_all is_word ws \<Longrightarrow> split (join ws) = ws"
proof (induction ws rule: join.induct)
  case 1
  then show ?case by (simp add: split_def)
next
  case (2 w)
  then have "words_acc [] (w @ []) = words_acc ([] @ w) []"
    by (intro words_acc_word) (simp add: is_word_def)
  with 2 show ?case by (simp add: split_def is_word_def)
next
  case (3 w v ws)
  have "words_acc [] (w @ CHR '' '' # join (v # ws))
          = words_acc ([] @ w) (CHR '' '' # join (v # ws))"
    using 3 by (intro words_acc_word) (simp add: is_word_def)
  also have "\<dots> = w # words_acc [] (join (v # ws))"
    using 3 by (simp add: is_word_def is_space_def)
  finally show ?case using 3 by (simp add: split_def)
qed

lemma re_sub_placeholder_plain:
  "CHR ''<'' \<notin> set s \<Longrightarrow> re_sub_placeholder s = s"
  by (induction s) auto

lemma str_in_char: "str_in [c] s = (c \<in> set s)"
  by (auto simp: str_in_def sublist_def in_set_conv_decomp)

lemma str_in_set: "str_in p s \<Longrightarrow> set p \<subseteq> set s"
  by (auto simp: str_in_def sublist_def)

lemma find_in_set: "find P xs = Some x \<Longrightarrow> x \<in> set xs \<and> P x"
  by (auto simp: find_Some_iff)

section \<open>The normalizer\<close>

lemma normalize_command_fold:
  "normalize_command t =
     (if length (split t) \<ge> 2
      then (case fold_plural (split t ! 1) of
              Some s \<Rightarrow> join ((split t)[1 := s])
            | None \<Rightarrow> t)
      else t)"
  by (simp add: normalize_command_def fold_plural_def Let_def split: option.splits prod.splits)

lemma fold_plural_range:
  assumes "fold_plural w = Some s"
  shows "s \<in> set (map snd normalizations)"
proof (cases "map_of normalizations w")
  case None
  with assms obtain p where
    "find (\<lambda>(plural, singular). startswith plural w \<or> startswith w (take (length w) plural))
       normalizations = Some (p, s)"
    by (auto simp: fold_plural_def split: option.splits)
  then have "(p, s) \<in> set normalizations"
    by (auto simp: find_Some_iff in_set_conv_nth)
  then show ?thesis by force
next
  case (Some a)
  with assms have "map_of normalizations w = Some s"
    by (simp add: fold_plural_def)
  then have "(w, s) \<in> set normalizations" by (rule map_of_SomeD)
  then show ?thesis by force
qed

text \<open>
  Each singular of the table is a word that the normalizer either maps to itself (through
  the prefix test against its own plural) or leaves alone (\<open>policy\<close>, which is no prefix of
  \<open>policies\<close>).
\<close>

lemma fold_plural_singular:
  assumes "s \<in> set (map snd normalizations)"
  shows "is_word s \<and> (fold_plural s = Some s \<or> fold_plural s = None)"
proof -
  have "list_all (\<lambda>s. is_word s \<and> (fold_plural s = Some s \<or> fold_plural s = None))
          (map snd normalizations)"
    by code_simp
  with assms show ?thesis by (auto simp: list_all_iff)
qed

text \<open>
  Claim C8. The normalizer is idempotent: normalizing a normalized command changes
  nothing, whichever of its three exits the first pass took (the exact plural, the
  prefix-based fallback on the second word, or no change).
\<close>

theorem normalize_command_idempotent:
  "normalize_command (normalize_command t) = normalize_command t"
proof (cases "length (split t) \<ge> 2")
  case False
  then show ?thesis by (simp add: normalize_command_fold)
next
  case long: True
  show ?thesis
  proof (cases "fold_plural (split t ! 1)")
    case None
    with long show ?thesis by (simp add: normalize_command_fold)
  next
    case (Some s)
    define ws where "ws = (split t)[1 := s]"
    have r: "normalize_command t = join ws"
      using long Some by (simp add: normalize_command_fold ws_def)
    have s: "is_word s" "fold_plural s = Some s \<or> fold_plural s = None"
      using fold_plural_singular [OF fold_plural_range [OF Some]] by simp_all
    have "list_all is_word ws"
      using s(1) split_are_words [of _ t]
      by (auto simp: ws_def list_all_iff dest!: set_update_subset_insert [THEN subsetD])
    then have sp: "split (join ws) = ws" by (rule split_join)
    have len: "length ws \<ge> 2" and nth: "ws ! 1 = s" and upd: "ws[1 := s] = ws"
      using long by (simp_all add: ws_def)
    have "normalize_command (join ws) = join ws"
      using s(2) len nth upd by (auto simp: normalize_command_fold sp)
    with r show ?thesis by simp
  qed
qed

text \<open>The theorem at an input that the prefix-based fallback resolves (\<open>tun\<close> to \<open>tunnel\<close>).\<close>

theorem normalize_command_idempotent_witness:
  "normalize_command ''show tun 3'' = ''show tunnel 3''
   \<and> normalize_command (normalize_command ''show tun 3'') = normalize_command ''show tun 3''"
proof -
  have "normalize_command ''show tun 3'' = ''show tunnel 3''" by code_simp
  then show ?thesis
    using normalize_command_idempotent [of "''show tun 3''"] by simp
qed

section \<open>The verdicts of \<open>validate_command\<close>\<close>

lemma find_unique_path:
  "distinct (map path d) \<Longrightarrow> s \<in> set d \<Longrightarrow> find (\<lambda>r. path r = path s) d = Some s"
  by (induction d) (auto simp: image_iff)

lemma select_path_like_subset: "set (select_path_like d pat) \<subseteq> set d"
  by (auto simp: select_path_like_def)

lemma partial_matches_subset: "set (partial_matches d c) \<subseteq> set d"
  using select_path_like_subset [of d]
  by (auto simp: partial_matches_def split: list.splits)

text \<open>The test for placeholder markup comes down to the presence of \<open><\<close>.\<close>

lemma placeholder_markup:
  "(str_in ''<placeholder>'' (re_sub_placeholder c) \<or> str_in ''<'' c) = (CHR ''<'' \<in> set c)"
proof (cases "CHR ''<'' \<in> set c")
  case True
  then show ?thesis by (simp add: str_in_char)
next
  case False
  then have "re_sub_placeholder c = c" by (rule re_sub_placeholder_plain)
  with False show ?thesis
    using str_in_set [of "''<placeholder>''" c] by (auto simp: str_in_char)
qed

lemma placeholder_branch_shape:
  assumes "placeholder_branch d c = Some v"
  shows "CHR ''<'' \<in> set c \<and>
         ((\<exists>m\<in>set d. v = valid_verdict m [(''similar'', Bool True)])
          \<or> (\<exists>l. v = [(''valid'', Bool False), (''suggestions'', StrList l),
                       (''reason'',
                        Str ''Command structure with placeholder not found in database'')]))"
proof -
  have markup: "CHR ''<'' \<in> set c"
    using assms placeholder_markup [of c]
    by (auto simp: placeholder_branch_def Let_def split: if_splits)
  have "(\<exists>m\<in>set d. v = valid_verdict m [(''similar'', Bool True)])
          \<or> (\<exists>l. v = [(''valid'', Bool False), (''suggestions'', StrList l),
                       (''reason'',
                        Str ''Command structure with placeholder not found in database'')])"
    using assms select_path_like_subset [of d]
    by (auto simp: placeholder_branch_def Let_def split: if_splits option.splits
             dest!: find_in_set)
  with markup show ?thesis by simp
qed

text \<open>The five shapes a verdict can have, one per \<open>return\<close> of the function.\<close>

lemma validate_command_shape:
  "(strip command = [] \<and>
      validate_command d command =
        [(''valid'', Bool False), (''suggestions'', StrList []),
         (''reason'', Str ''Empty command'')])
   \<or> (strip command \<noteq> [] \<and>
       (\<exists>row\<in>set d. validate_command d command = valid_verdict row []
                   \<or> validate_command d command = valid_verdict row [(''similar'', Bool True)]
                   \<or> validate_command d command
                       = valid_verdict row [(''normalized'', Bool True)]))
   \<or> (strip command \<noteq> [] \<and> CHR ''<'' \<in> set (strip command) \<and>
       (\<exists>l. validate_command d command =
              [(''valid'', Bool False), (''suggestions'', StrList l),
               (''reason'', Str ''Command structure with placeholder not found in database'')]))
   \<or> (strip command \<noteq> [] \<and>
       validate_command d command =
         [(''valid'', Bool False),
          (''suggestions'', StrList (find_similar_commands d (strip command)))])"
proof (cases "strip command = []")
  case True
  then show ?thesis by (simp add: validate_command_def)
next
  case ne: False
  show ?thesis
  proof (cases "select_path_eq d (strip command)")
    case (Some row)
    then have "row \<in> set d" by (auto simp: select_path_eq_def dest: find_in_set)
    with ne Some show ?thesis by (auto simp: validate_command_def)
  next
    case ex: None
    show ?thesis
    proof (cases "placeholder_branch d (strip command)")
      case (Some v)
      with ne ex have "validate_command d command = v" by (simp add: validate_command_def)
      with placeholder_branch_shape [OF Some] ne show ?thesis by auto
    next
      case pb: None
      show ?thesis
      proof (cases "select_path_eq d (normalize_command (strip command))")
        case (Some row)
        then have "row \<in> set d" by (auto simp: select_path_eq_def dest: find_in_set)
        with ne ex pb Some show ?thesis by (auto simp: validate_command_def)
      next
        case nm: None
        show ?thesis
        proof (cases "find (fuzzy_accept (strip command)) (partial_matches d (strip command))")
          case None
          with ne ex pb nm show ?thesis by (simp add: validate_command_def)
        next
          case (Some m)
          then have "m \<in> set d"
            using partial_matches_subset [of d] by (auto dest: find_in_set)
          with ne ex pb nm Some show ?thesis by (auto simp: validate_command_def)
        qed
      qed
    qed
  qed
qed

text \<open>
  Claim C1. For every signature \<open>s\<close> stored in the catalog, validating its path gives the
  exact verdict for \<open>s\<close>: \<open>valid\<close> true, the path, help text and category of \<open>s\<close>, and
  neither of the keys \<open>normalized\<close> and \<open>similar\<close> that mark the other kinds of match.
  The catalog holds the path of a signature as one string, which is what is validated; it
  is stored stripped (the parser strips it) and is not empty, and the column is unique.
\<close>

theorem validate_stored_signature_exact:
  assumes "unique_paths d" and "s \<in> set d"
    and "path s \<noteq> []" and "strip (path s) = path s"
  shows "validate_command d (path s) =
           [(''valid'', Bool True), (''path'', Str (path s)), (''help'', Str (short_help s)),
            (''category'', Str (category s))]"
proof -
  have "select_path_eq d (path s) = Some s"
    using assms(1,2) by (simp add: select_path_eq_def unique_paths_def find_unique_path)
  with assms(3,4) show ?thesis
    by (simp add: validate_command_def valid_verdict_def)
qed

theorem validate_stored_signature_exact_witness:
  "validate_command [sample_row ''show interface'', sample_row ''show interface address'']
     (path (sample_row ''show interface'')) =
     [(''valid'', Bool True), (''path'', Str (path (sample_row ''show interface''))),
      (''help'', Str (short_help (sample_row ''show interface''))),
      (''category'', Str (category (sample_row ''show interface'')))]"
proof -
  have u: "unique_paths [sample_row ''show interface'', sample_row ''show interface address'']"
    by code_simp
  have m: "sample_row ''show interface''
             \<in> set [sample_row ''show interface'', sample_row ''show interface address'']"
    by simp
  have n: "path (sample_row ''show interface'') \<noteq> []"
    by code_simp
  have t: "strip (path (sample_row ''show interface'')) = path (sample_row ''show interface'')"
    by code_simp
  show ?thesis
    by (rule validate_stored_signature_exact [OF u m n t])
qed

text \<open>
  Claim C7, as the code has it. The exact lookup compares the stripped command with the
  stored path character for character: it succeeds precisely when the catalog holds a row
  whose path is that very string. Letter case counts, and a command that is a proper prefix
  of a path is not that path.
\<close>

theorem exact_match_iff:
  "(\<exists>row. validate_command d command = valid_verdict row [])
     = (strip command \<noteq> [] \<and> (\<exists>row\<in>set d. path row = strip command))"
proof
  assume "\<exists>row. validate_command d command = valid_verdict row []"
  then obtain row where v: "validate_command d command = valid_verdict row []" ..
  then have ne: "strip command \<noteq> []"
    by (auto simp: validate_command_def valid_verdict_def)
  have "select_path_eq d (strip command) \<noteq> None"
  proof
    assume ex: "select_path_eq d (strip command) = None"
    show False
    proof (cases "placeholder_branch d (strip command)")
      case (Some w)
      with ne ex have "validate_command d command = w" by (simp add: validate_command_def)
      with placeholder_branch_shape [OF Some] v show False
        by (auto simp: valid_verdict_def)
    next
      case None
      with ne ex v show False
        by (auto simp: validate_command_def valid_verdict_def Let_def split: option.splits)
    qed
  qed
  then obtain r where "select_path_eq d (strip command) = Some r" by auto
  then have "r \<in> set d \<and> path r = strip command"
    by (auto simp: select_path_eq_def dest: find_in_set)
  with ne show "strip command \<noteq> [] \<and> (\<exists>row\<in>set d. path row = strip command)" by auto
next
  assume a: "strip command \<noteq> [] \<and> (\<exists>row\<in>set d. path row = strip command)"
  then have "find (\<lambda>r. path r = strip command) d \<noteq> None"
    by (auto simp: find_None_iff)
  then obtain r where "select_path_eq d (strip command) = Some r"
    by (auto simp: select_path_eq_def)
  with a show "\<exists>row. validate_command d command = valid_verdict row []"
    by (auto simp: validate_command_def)
qed

text \<open>
  The theorem at \<open>show interface\<close> against a catalog that holds \<open>show interface address\<close>
  only: no row has that path, so the verdict is not an exact one.
\<close>

theorem exact_match_iff_witness:
  "\<not> (\<exists>row. validate_command [sample_row ''show interface address''] ''show interface''
               = valid_verdict row [])"
proof -
  have "\<not> (strip ''show interface'' \<noteq> []
            \<and> (\<exists>row\<in>set [sample_row ''show interface address''].
                  path row = strip ''show interface''))"
    by code_simp
  then show ?thesis
    using exact_match_iff [of "[sample_row ''show interface address'']" "''show interface''"]
    by simp
qed

text \<open>
  Claim C7 as stated fails: the catalog holds \<open>show version\<close>, which equals the query
  \<open>SHOW VERSION\<close> token by token when case is ignored, and the verdict is not the exact
  one; the command is accepted further down, by the similarity test.
\<close>

theorem exact_match_case_counterexample:
  "map lower (split ''SHOW VERSION'') = map lower (split (path (sample_row ''show version'')))
   \<and> validate_command [sample_row ''show version''] ''SHOW VERSION''
       \<noteq> valid_verdict (sample_row ''show version'') []
   \<and> validate_command [sample_row ''show version''] ''SHOW VERSION''
       = valid_verdict (sample_row ''show version'') [(''similar'', Bool True)]"
  by code_simp

text \<open>
  Claim C10. Every verdict has the key \<open>valid\<close>. A valid verdict has \<open>path\<close>, \<open>help\<close> and
  \<open>category\<close>, those of a row of the catalog; an invalid one has a list \<open>suggestions\<close>.
  The key \<open>reason\<close> occurs in two verdicts only, that of the empty command and that of the
  failed placeholder branch; an invalid verdict without it is the generic no-match verdict,
  which consists of \<open>valid\<close> and \<open>suggestions\<close>.
\<close>

theorem verdict_keys:
  "let v = validate_command d command in
     (\<exists>b. map_of v ''valid'' = Some (Bool b))
     \<and> (map_of v ''valid'' = Some (Bool True) \<longrightarrow>
          (\<exists>row\<in>set d. map_of v ''path'' = Some (Str (path row))
                       \<and> map_of v ''help'' = Some (Str (short_help row))
                       \<and> map_of v ''category'' = Some (Str (category row))))
     \<and> (map_of v ''valid'' = Some (Bool False) \<longrightarrow>
          (\<exists>l. map_of v ''suggestions'' = Some (StrList l)))
     \<and> (has_key v ''reason'' \<longrightarrow>
          (strip command = [] \<and> map_of v ''reason'' = Some (Str ''Empty command''))
          \<or> (CHR ''<'' \<in> set (strip command)
              \<and> map_of v ''reason''
                  = Some (Str ''Command structure with placeholder not found in database'')))
     \<and> (map_of v ''valid'' = Some (Bool False) \<and> \<not> has_key v ''reason'' \<longrightarrow>
          v = [(''valid'', Bool False),
               (''suggestions'', StrList (find_similar_commands d (strip command)))])"
  using validate_command_shape [of command d]
  by (auto simp: Let_def valid_verdict_def has_key_def)

text \<open>
  The theorem at three commands: a valid one, one of the placeholder branch, and one that
  matches nothing.
\<close>

theorem verdict_keys_witness:
  "map_of (validate_command [sample_row ''show version''] ''show version'') ''valid''
     = Some (Bool True)
   \<and> map_of (validate_command [sample_row ''show version''] ''show version'') ''path''
     = Some (Str ''show version'')
   \<and> has_key (validate_command [sample_row ''trace add a b''] ''trace add <x>'') ''reason''
   \<and> map_of (validate_command [sample_row ''trace add a b''] ''trace add <x>'') ''reason''
       = Some (Str ''Command structure with placeholder not found in database'')
   \<and> map_of (validate_command [sample_row ''show version''] ''summon gods'') ''valid''
       = Some (Bool False)
   \<and> \<not> has_key (validate_command [sample_row ''show version''] ''summon gods'') ''reason''
   \<and> validate_command [sample_row ''show version''] ''summon gods''
       = [(''valid'', Bool False),
          (''suggestions'',
           StrList (find_similar_commands [sample_row ''show version''] (strip ''summon gods'')))]"
proof -
  have a: "map_of (validate_command [sample_row ''show version''] ''show version'') ''valid''
             = Some (Bool True)"
    by code_simp
  have b: "has_key (validate_command [sample_row ''trace add a b''] ''trace add <x>'') ''reason''
           \<and> strip ''trace add <x>'' \<noteq> []"
    by code_simp
  have c: "map_of (validate_command [sample_row ''show version''] ''summon gods'') ''valid''
             = Some (Bool False)
           \<and> \<not> has_key (validate_command [sample_row ''show version''] ''summon gods'') ''reason''"
    by code_simp
  have p: "path (sample_row ''show version'') = ''show version''"
    by (simp add: sample_row_def)
  show ?thesis
    using a b c p
      verdict_keys [of "[sample_row ''show version'']" "''show version''"]
      verdict_keys [of "[sample_row ''trace add a b'']" "''trace add <x>''"]
      verdict_keys [of "[sample_row ''show version'']" "''summon gods''"]
    by (simp add: Let_def)
qed

section \<open>The similarity step\<close>

text \<open>
  Claim C2 at two failing inputs. The claim bounds the difference of the word counts by
  one in either direction, and asks for equal words, one sequence of words inside the
  other, or more than half of the words shared. The loop tests the lower bound on the
  length only, and looks for one joined string inside the other character by character.
  So \<open>show\<close> is accepted with the path \<open>show ip fib table\<close>, three words longer, in a
  verdict without suggestions; and \<open>set interface stat\<close> is accepted with the path
  \<open>set interface state\<close>, though the words differ, neither sequence is a run of the other
  and two words in four are shared. In both cases the exact lookup, the placeholder branch
  and the normalized lookup have failed before.
\<close>

theorem fuzzy_accept_outside_rule:
  "select_path_eq [sample_row ''show ip fib table''] (strip ''show'') = None
   \<and> placeholder_branch [sample_row ''show ip fib table''] (strip ''show'') = None
   \<and> select_path_eq [sample_row ''show ip fib table''] (normalize_command (strip ''show'')) = None
   \<and> validate_command [sample_row ''show ip fib table''] ''show''
       = valid_verdict (sample_row ''show ip fib table'') [(''similar'', Bool True)]
   \<and> \<not> has_key (validate_command [sample_row ''show ip fib table''] ''show'') ''suggestions''
   \<and> \<not> \<bar>int (length (split (path (sample_row ''show ip fib table''))))
          - int (length (split ''show''))\<bar> \<le> 1
   \<and> select_path_eq [sample_row ''set interface state''] (strip ''set interface stat'') = None
   \<and> placeholder_branch [sample_row ''set interface state''] (strip ''set interface stat'') = None
   \<and> select_path_eq [sample_row ''set interface state'']
         (normalize_command (strip ''set interface stat'')) = None
   \<and> validate_command [sample_row ''set interface state''] ''set interface stat''
       = valid_verdict (sample_row ''set interface state'') [(''similar'', Bool True)]
   \<and> split (lower ''set interface stat'') \<noteq> split (lower ''set interface state'')
   \<and> \<not> sublist (split (lower ''set interface stat'')) (split (lower ''set interface state''))
   \<and> \<not> sublist (split (lower ''set interface state'')) (split (lower ''set interface stat''))
   \<and> \<not> rat_of_nat (card (set (split (lower ''set interface stat''))
                           \<inter> set (split (lower ''set interface state''))))
         / rat_of_nat (card (set (split (lower ''set interface stat''))
                             \<union> set (split (lower ''set interface state'')))) > 1 / 2"
  by code_simp

text \<open>
  Claim C6 at a failing input. The candidates of the similarity step are the rows whose
  path is \<open>LIKE\<close> the first word followed by \<open>%\<close>, a prefix of the string and not a
  first word: the command \<open>sh\<close> is accepted with the path \<open>show interface\<close>, whose first
  word is \<open>show\<close>.
\<close>

theorem fuzzy_first_token_differs:
  "validate_command [sample_row ''show interface''] ''sh''
     = valid_verdict (sample_row ''show interface'') [(''similar'', Bool True)]
   \<and> take 1 (split (lower (path (sample_row ''show interface'')))) = [''show'']
   \<and> take 1 (split (lower ''sh'')) = [''sh'']"
  by code_simp

section \<open>The placeholder branch\<close>

text \<open>
  Claim C3 at a failing input. The claim accepts a candidate whose literal prefix matches
  and whose word count is within one of the command's, in either direction. The path
  \<open>trace add <node> <count>\<close> starts with the leading words of \<open>trace add <interface>\<close>,
  is not found by the exact lookup and is one word longer, and the verdict is the invalid
  one of this branch: the second test of the loop admits a path of the same length or one
  word shorter, and none that is longer. The last conjunct is the shorter direction, the
  one the loop does admit: \<open>trace add filter\<close> for \<open>trace add <interface> 10\<close>.
\<close>

theorem placeholder_structure_one_longer:
  "select_path_eq [sample_row ''trace add <node> <count>''] (strip ''trace add <interface>'')
     = None
   \<and> startswith (path (sample_row ''trace add <node> <count>'')) ''trace add''
   \<and> \<bar>int (length (split ''trace add <interface>''))
       - int (length (split (path (sample_row ''trace add <node> <count>''))))\<bar> \<le> 1
   \<and> validate_command [sample_row ''trace add <node> <count>''] ''trace add <interface>''
       = [(''valid'', Bool False), (''suggestions'', StrList [''trace add <node> <count>'']),
          (''reason'', Str ''Command structure with placeholder not found in database'')]
   \<and> validate_command [sample_row ''trace add filter''] ''trace add <interface> 10''
       = valid_verdict (sample_row ''trace add filter'') [(''similar'', Bool True)]"
  by code_simp

section \<open>The scan of an AI response\<close>

lemma validate_command_valid_key:
  "\<exists>b. map_of (validate_command d c) ''valid'' = Some (Bool b)"
  using validate_command_shape [of c d]
  by (auto simp: valid_verdict_def)

lemma validate_command_suggestions_key:
  "map_of (validate_command d c) ''valid'' \<noteq> Some (Bool True) \<Longrightarrow>
     \<exists>l. map_of (validate_command d c) ''suggestions'' = Some (StrList l)"
  using validate_command_shape [of c d]
  by (auto simp: valid_verdict_def)

lemma scan_step_known:
  "check_known_hallucination cmd = Some h \<Longrightarrow>
     scan_step d cmd st =
       Inr (st\<lparr>invalid_commands := invalid_commands st @ [cmd],
               known_hallucinations := AList.update cmd h (known_hallucinations st),
               suggestions := AList.update cmd [correct h] (suggestions st)\<rparr>)"
  by (simp add: scan_step_def)

lemma scan_step_total:
  "\<exists>st'. scan_step d cmd st = Inr st'
     \<and> ((valid_commands st' = valid_commands st @ [cmd]
           \<and> invalid_commands st' = invalid_commands st)
         \<or> (valid_commands st' = valid_commands st
             \<and> invalid_commands st' = invalid_commands st @ [cmd]))"
proof (cases "check_known_hallucination cmd")
  case (Some h)
  then show ?thesis by (simp add: scan_step_known)
next
  case None
  obtain b where b: "map_of (validate_command d cmd) ''valid'' = Some (Bool b)"
    using validate_command_valid_key by blast
  show ?thesis
  proof (cases b)
    case True
    with None b show ?thesis by (simp add: scan_step_def)
  next
    case False
    with b obtain l where "map_of (validate_command d cmd) ''suggestions'' = Some (StrList l)"
      using validate_command_suggestions_key [of d cmd] by auto
    with None b False show ?thesis by (simp add: scan_step_def)
  qed
qed

lemma scan_step_other:
  assumes "scan_step d cmd st = Inr st'" and "k \<noteq> cmd"
  shows "map_of (suggestions st') k = map_of (suggestions st) k
         \<and> map_of (known_hallucinations st') k = map_of (known_hallucinations st) k"
proof (cases "check_known_hallucination cmd")
  case (Some h)
  with assms show ?thesis
    by (auto simp: scan_step_known update_conv')
next
  case None
  obtain b where b: "map_of (validate_command d cmd) ''valid'' = Some (Bool b)"
    using validate_command_valid_key by blast
  show ?thesis
  proof (cases b)
    case True
    with None b assms show ?thesis by (auto simp: scan_step_def)
  next
    case False
    with b obtain l where l: "map_of (validate_command d cmd) ''suggestions'' = Some (StrList l)"
      using validate_command_suggestions_key [of d cmd] by auto
    show ?thesis
    proof (cases l)
      case Nil
      with None b False l assms show ?thesis by (auto simp: scan_step_def)
    next
      case (Cons x xs)
      with None b False l assms show ?thesis by (auto simp: scan_step_def update_conv')
    qed
  qed
qed


lemma scan_step_lists:
  assumes "scan_step d cmd st = Inr st'"
  shows "length (valid_commands st') + length (invalid_commands st')
           = Suc (length (valid_commands st) + length (invalid_commands st))"
    and "set (valid_commands st') \<union> set (invalid_commands st')
           = insert cmd (set (valid_commands st) \<union> set (invalid_commands st))"
    and "k \<noteq> cmd \<Longrightarrow> (k \<in> set (valid_commands st')) = (k \<in> set (valid_commands st))"
    and "k \<noteq> cmd \<Longrightarrow> (k \<in> set (invalid_commands st')) = (k \<in> set (invalid_commands st))"
proof -
  from scan_step_total [of d cmd st] assms
  have "(valid_commands st' = valid_commands st @ [cmd]
           \<and> invalid_commands st' = invalid_commands st)
         \<or> (valid_commands st' = valid_commands st
             \<and> invalid_commands st' = invalid_commands st @ [cmd])"
    by simp
  then consider
      (valid) "valid_commands st' = valid_commands st @ [cmd]"
              "invalid_commands st' = invalid_commands st"
    | (invalid) "valid_commands st' = valid_commands st"
                "invalid_commands st' = invalid_commands st @ [cmd]"
    by blast
  note split = this
  show "length (valid_commands st') + length (invalid_commands st')
           = Suc (length (valid_commands st) + length (invalid_commands st))"
    by (cases rule: split) simp_all
  show "set (valid_commands st') \<union> set (invalid_commands st')
           = insert cmd (set (valid_commands st) \<union> set (invalid_commands st))"
    by (cases rule: split) simp_all
  show "k \<noteq> cmd \<Longrightarrow> (k \<in> set (valid_commands st')) = (k \<in> set (valid_commands st))"
    by (cases rule: split) simp_all
  show "k \<noteq> cmd \<Longrightarrow> (k \<in> set (invalid_commands st')) = (k \<in> set (invalid_commands st))"
    by (cases rule: split) simp_all
qed

lemma scan_loop_total:
  "\<exists>r. scan_loop d st cmds = Inr r
     \<and> length (valid_commands r) + length (invalid_commands r)
         = length (valid_commands st) + length (invalid_commands st) + length cmds
     \<and> set (valid_commands r) \<union> set (invalid_commands r)
         = set (valid_commands st) \<union> set (invalid_commands st) \<union> set cmds"
proof (induction cmds arbitrary: st)
  case Nil
  then show ?case by simp
next
  case (Cons cmd cmds)
  from scan_step_total [of d cmd st]
  obtain st' where st': "scan_step d cmd st = Inr st'" by (elim exE conjE)
  from Cons.IH [of st']
  obtain r where r: "scan_loop d st' cmds = Inr r"
    and len: "length (valid_commands r) + length (invalid_commands r)
               = length (valid_commands st') + length (invalid_commands st') + length cmds"
    and elems: "set (valid_commands r) \<union> set (invalid_commands r)
               = set (valid_commands st') \<union> set (invalid_commands st') \<union> set cmds"
    by (elim exE conjE)
  have 1: "scan_loop d st (cmd # cmds) = Inr r"
    using st' r by simp
  have 2: "length (valid_commands r) + length (invalid_commands r)
         = length (valid_commands st) + length (invalid_commands st) + length (cmd # cmds)"
    unfolding len scan_step_lists(1) [OF st'] by simp
  have 3: "set (valid_commands r) \<union> set (invalid_commands r)
         = set (valid_commands st) \<union> set (invalid_commands st) \<union> set (cmd # cmds)"
    unfolding elems scan_step_lists(2) [OF st'] by simp
  from 1 2 3 show ?case by (intro exI [of _ r] conjI)
qed

lemma scan_loop_other:
  assumes "scan_loop d st cmds = Inr r" and "k \<notin> set cmds"
  shows "map_of (suggestions r) k = map_of (suggestions st) k
         \<and> map_of (known_hallucinations r) k = map_of (known_hallucinations st) k
         \<and> (k \<in> set (valid_commands r)) = (k \<in> set (valid_commands st))
         \<and> (k \<in> set (invalid_commands r)) = (k \<in> set (invalid_commands st))"
  using assms
proof (induction cmds arbitrary: st)
  case Nil
  then show ?case by simp
next
  case (Cons cmd cmds)
  from scan_step_total [of d cmd st]
  obtain st' where st': "scan_step d cmd st = Inr st'" by (elim exE conjE)
  have ne: "k \<noteq> cmd" and rest: "k \<notin> set cmds"
    using Cons.prems(2) by simp_all
  have loop: "scan_loop d st' cmds = Inr r"
    using Cons.prems(1) st' by simp
  have a: "map_of (suggestions st') k = map_of (suggestions st) k"
    "map_of (known_hallucinations st') k = map_of (known_hallucinations st) k"
    using scan_step_other [OF st' ne] by simp_all
  have b: "(k \<in> set (valid_commands st')) = (k \<in> set (valid_commands st))"
    "(k \<in> set (invalid_commands st')) = (k \<in> set (invalid_commands st))"
    using scan_step_lists(3,4) [OF st' ne] by simp_all
  from Cons.IH [OF loop rest] show ?case
    unfolding a b .
qed

lemma scan_loop_known:
  assumes "scan_loop d st cmds = Inr r" and "distinct cmds" and "cmd \<in> set cmds"
    and "check_known_hallucination cmd = Some h" and "cmd \<notin> set (valid_commands st)"
  shows "map_of (suggestions r) cmd = Some [correct h]
         \<and> map_of (known_hallucinations r) cmd = Some h
         \<and> cmd \<in> set (invalid_commands r) \<and> cmd \<notin> set (valid_commands r)"
  using assms(1,2,3,5)
proof (induction cmds arbitrary: st)
  case Nil
  then show ?case by simp
next
  case (Cons x cmds)
  show ?case
  proof (cases "x = cmd")
    case True
    define st' where
      "st' = st\<lparr>invalid_commands := invalid_commands st @ [cmd],
                known_hallucinations := AList.update cmd h (known_hallucinations st),
                suggestions := AList.update cmd [correct h] (suggestions st)\<rparr>"
    have "scan_step d cmd st = Inr st'"
      using assms(4) by (simp add: scan_step_known st'_def)
    with Cons.prems(1) True have loop: "scan_loop d st' cmds = Inr r" by simp
    have notin: "cmd \<notin> set cmds" using Cons.prems(2) True by simp
    have init: "map_of (suggestions st') cmd = Some [correct h]"
      "map_of (known_hallucinations st') cmd = Some h"
      "cmd \<in> set (invalid_commands st')" "cmd \<notin> set (valid_commands st')"
      using Cons.prems(4) by (simp_all add: st'_def update_conv')
    from scan_loop_other [OF loop notin] init show ?thesis
      by simp
  next
    case False
    from scan_step_total [of d x st]
    obtain st' where st': "scan_step d x st = Inr st'" by (elim exE conjE)
    have loop: "scan_loop d st' cmds = Inr r"
      using Cons.prems(1) st' by simp
    have dist: "distinct cmds" and mem: "cmd \<in> set cmds"
      using Cons.prems(2,3) False by simp_all
    have "cmd \<noteq> x" using False by simp
    from scan_step_lists(3) [OF st' this] Cons.prems(4)
    have "cmd \<notin> set (valid_commands st')" by simp
    from Cons.IH [OF loop dist mem this] show ?thesis .
  qed
qed

lemma unique_commands_distinct:
  "distinct (unique_commands seen cmds) \<and> set (unique_commands seen cmds) \<inter> set seen = {}"
proof (induction cmds arbitrary: seen)
  case Nil
  then show ?case by simp
next
  case (Cons c cmds)
  show ?case
  proof (cases "strip c \<noteq> [] \<and> strip c \<notin> set seen \<and> length (split (strip c)) \<ge> 1")
    case True
    then have eq: "unique_commands seen (c # cmds)
                     = strip c # unique_commands (strip c # seen) cmds"
      by (simp add: Let_def)
    from Cons.IH [of "strip c # seen"] True show ?thesis
      unfolding eq by auto
  next
    case False
    then have eq: "unique_commands seen (c # cmds) = unique_commands seen cmds"
      by (auto simp: Let_def)
    from Cons.IH [of seen] show ?thesis
      unfolding eq .
  qed
qed

lemma extract_commands_distinct: "distinct (extract_commands_from_text text)"
  using unique_commands_distinct [of "[]"]
  by (simp add: extract_commands_from_text_def Let_def)

text \<open>
  Claim C5, as the code has it. Whenever the candidate \<open>trace add <interface>\<close> is
  extracted from a text, the scan succeeds and lists it as invalid and not as valid, with
  the entry of the table of known hallucinations whose \<open>correct\<close> is
  \<open>trace add <input-graph-node>\<close>, and with that form as its one suggestion. The catalog is
  arbitrary: it has no part in the outcome for this candidate.
\<close>

theorem known_hallucination_trace_add:
  assumes "''trace add <interface>'' \<in> set (extract_commands_from_text text)"
  shows "\<exists>r. validate_ai_response d text = Inr r
           \<and> ''trace add <interface>'' \<in> set (invalid_commands r)
           \<and> ''trace add <interface>'' \<notin> set (valid_commands r)
           \<and> map_option correct (map_of (known_hallucinations r) ''trace add <interface>'')
               = Some ''trace add <input-graph-node>''
           \<and> map_of (suggestions r) ''trace add <interface>''
               = Some [''trace add <input-graph-node>'']"
proof -
  define h where
    "h = \<lparr>is_hallucination = True, pattern = ''trace add <interface[^>]*>'',
          correct = ''trace add <input-graph-node>'',
          reason = ''trace add requires input-graph-node, not interface name''\<rparr>"
  define st0 where
    "st0 = \<lparr>valid_commands = [], invalid_commands = [], suggestions = [],
            known_hallucinations = [], confidence = 0\<rparr>"
  have known: "check_known_hallucination ''trace add <interface>'' = Some h"
    unfolding h_def by code_simp
  from scan_loop_total [of d st0 "extract_commands_from_text text"]
  obtain st where loop: "scan_loop d st0 (extract_commands_from_text text) = Inr st"
    by (elim exE conjE)
  have "''trace add <interface>'' \<notin> set (valid_commands st0)"
    by (simp add: st0_def)
  from scan_loop_known [OF loop extract_commands_distinct assms known this]
  have "map_of (suggestions st) ''trace add <interface>'' = Some [correct h]
        \<and> map_of (known_hallucinations st) ''trace add <interface>'' = Some h
        \<and> ''trace add <interface>'' \<in> set (invalid_commands st)
        \<and> ''trace add <interface>'' \<notin> set (valid_commands st)" .
  moreover have "correct h = ''trace add <input-graph-node>''"
    by (simp add: h_def)
  ultimately show ?thesis
    using loop by (simp add: validate_ai_response_def Let_def st0_def)
qed

text \<open>The theorem at a text that quotes the candidate.\<close>

theorem known_hallucination_trace_add_witness:
  "''trace add <interface>'' \<in> set (extract_commands_from_text ''use `trace add <interface>` first'')
   \<and> (\<exists>r. validate_ai_response [sample_row ''trace add''] ''use `trace add <interface>` first''
            = Inr r
          \<and> ''trace add <interface>'' \<in> set (invalid_commands r)
          \<and> ''trace add <interface>'' \<notin> set (valid_commands r)
          \<and> map_option correct (map_of (known_hallucinations r) ''trace add <interface>'')
              = Some ''trace add <input-graph-node>''
          \<and> map_of (suggestions r) ''trace add <interface>''
              = Some [''trace add <input-graph-node>''])"
proof -
  have a: "''trace add <interface>''
             \<in> set (extract_commands_from_text ''use `trace add <interface>` first'')"
    by code_simp
  show ?thesis
    by (rule conjI [OF a known_hallucination_trace_add [OF a]])
qed

text \<open>
  Claim C5 as stated fails: no pattern of the table matches \<open>trace add eth0\<close> (they ask for
  the markup \<open><interface\<close> or for the word \<open>interface\<close>), so the candidate goes to the
  catalog, and what the scan says of it follows the catalog: valid when the catalog holds
  \<open>trace add\<close>, invalid without a corrected form when the catalog is empty.
\<close>

theorem known_hallucination_eth0_counterexample:
  "extract_commands_from_text ''use `trace add eth0` first'' = [''trace add eth0'']
   \<and> check_known_hallucination ''trace add eth0'' = None
   \<and> validate_ai_response [sample_row ''trace add''] ''use `trace add eth0` first''
       = Inr \<lparr>valid_commands = [''trace add eth0''], invalid_commands = [], suggestions = [],
              known_hallucinations = [], confidence = 1\<rparr>
   \<and> validate_ai_response [] ''use `trace add eth0` first''
       = Inr \<lparr>valid_commands = [], invalid_commands = [''trace add eth0''], suggestions = [],
              known_hallucinations = [], confidence = 0\<rparr>"
  by code_simp

text \<open>
  Claim C9. Every scan returns a report. The valid and the invalid commands together are
  the extracted candidates. With no candidate, the confidence is 1 and both lists are
  empty; otherwise the confidence is the number of valid commands over the number of
  commands that are valid or invalid.
\<close>

theorem confidence_ratio:
  "\<exists>r. validate_ai_response d text = Inr r
     \<and> set (valid_commands r) \<union> set (invalid_commands r)
         = set (extract_commands_from_text text)
     \<and> (extract_commands_from_text text = [] \<longrightarrow>
          confidence r = 1 \<and> valid_commands r = [] \<and> invalid_commands r = [])
     \<and> (extract_commands_from_text text \<noteq> [] \<longrightarrow>
          confidence r
            = rat_of_nat (card (set (valid_commands r)))
              / rat_of_nat (card (set (valid_commands r) \<union> set (invalid_commands r))))"
proof -
  define cmds where "cmds = extract_commands_from_text text"
  define st0 where
    "st0 = \<lparr>valid_commands = [], invalid_commands = [], suggestions = [],
            known_hallucinations = [], confidence = 0\<rparr>"
  from scan_loop_total [of d st0 cmds]
  obtain st where loop: "scan_loop d st0 cmds = Inr st"
    and len: "length (valid_commands st) + length (invalid_commands st) = length cmds"
    and elems: "set (valid_commands st) \<union> set (invalid_commands st) = set cmds"
    unfolding st0_def by (elim exE conjE) simp
  have dist: "distinct cmds"
    unfolding cmds_def by (rule extract_commands_distinct)
  have card_all: "card (set (valid_commands st) \<union> set (invalid_commands st)) = length cmds"
    using elems dist by (simp add: distinct_card)
  have "card (set (valid_commands st) \<union> set (invalid_commands st))
          \<le> card (set (valid_commands st)) + card (set (invalid_commands st))"
    by (rule card_Un_le)
  moreover have "card (set (valid_commands st)) \<le> length (valid_commands st)"
    and "card (set (invalid_commands st)) \<le> length (invalid_commands st)"
    by (rule card_length)+
  ultimately have card_valid: "card (set (valid_commands st)) = length (valid_commands st)"
    using card_all len by linarith
  define r where
    "r = st\<lparr>confidence := (if cmds \<noteq> []
                             then rat_of_nat (length (valid_commands st))
                                  / rat_of_nat (length cmds)
                             else 1)\<rparr>"
  have "validate_ai_response d text = Inr r"
    using loop by (simp add: validate_ai_response_def Let_def st0_def cmds_def r_def)
  moreover have "set (valid_commands r) \<union> set (invalid_commands r) = set cmds"
    using elems by (simp add: r_def)
  moreover have "cmds = [] \<longrightarrow> confidence r = 1 \<and> valid_commands r = [] \<and> invalid_commands r = []"
    using len by (auto simp: r_def)
  moreover have "cmds \<noteq> [] \<longrightarrow>
          confidence r
            = rat_of_nat (card (set (valid_commands r)))
              / rat_of_nat (card (set (valid_commands r) \<union> set (invalid_commands r)))"
    using card_all card_valid by (simp add: r_def)
  ultimately show ?thesis
    unfolding cmds_def by blast
qed

text \<open>
  The theorem at a text with one valid and one invalid candidate, and at a text with no
  candidate.
\<close>

theorem confidence_ratio_witness:
  "extract_commands_from_text ''try `show version` or `summon gods`'' \<noteq> []
   \<and> validate_ai_response [sample_row ''show version''] ''try `show version` or `summon gods`''
       = Inr \<lparr>valid_commands = [''show version''], invalid_commands = [''summon gods''],
              suggestions = [], known_hallucinations = [], confidence = 1 / 2\<rparr>
   \<and> extract_commands_from_text ''nothing to run'' = []
   \<and> (\<exists>r. validate_ai_response [sample_row ''show version''] ''nothing to run'' = Inr r
          \<and> set (valid_commands r) \<union> set (invalid_commands r)
              = set (extract_commands_from_text ''nothing to run'')
          \<and> (extract_commands_from_text ''nothing to run'' = [] \<longrightarrow>
               confidence r = 1 \<and> valid_commands r = [] \<and> invalid_commands r = [])
          \<and> (extract_commands_from_text ''nothing to run'' \<noteq> [] \<longrightarrow>
               confidence r
                 = rat_of_nat (card (set (valid_commands r)))
                   / rat_of_nat (card (set (valid_commands r) \<union> set (invalid_commands r)))))
   \<and> (\<exists>r. validate_ai_response [sample_row ''show version'']
            ''try `show version` or `summon gods`'' = Inr r
          \<and> set (valid_commands r) \<union> set (invalid_commands r)
              = set (extract_commands_from_text ''try `show version` or `summon gods`'')
          \<and> (extract_commands_from_text ''try `show version` or `summon gods`'' = [] \<longrightarrow>
               confidence r = 1 \<and> valid_commands r = [] \<and> invalid_commands r = [])
          \<and> (extract_commands_from_text ''try `show version` or `summon gods`'' \<noteq> [] \<longrightarrow>
               confidence r
                 = rat_of_nat (card (set (valid_commands r)))
                   / rat_of_nat (card (set (valid_commands r) \<union> set (invalid_commands r)))))"
proof -
  have a: "extract_commands_from_text ''try `show version` or `summon gods`'' \<noteq> []"
    by code_simp
  have b: "validate_ai_response [sample_row ''show version'']
             ''try `show version` or `summon gods`''
       = Inr \<lparr>valid_commands = [''show version''], invalid_commands = [''summon gods''],
              suggestions = [], known_hallucinations = [], confidence = 1 / 2\<rparr>"
    by code_simp
  have c: "extract_commands_from_text ''nothing to run'' = []"
    by code_simp
  show ?thesis
    by (intro conjI a b c
          confidence_ratio [of "[sample_row ''show version'']" "''nothing to run''"]
          confidence_ratio [of "[sample_row ''show version'']"
                               "''try `show version` or `summon gods`''"])
qed

section \<open>Completion\<close>

text \<open>
  Claim C4 at its two inputs, with the three signatures in the catalog and no reply from
  the dataplane. \<open>show\<close> completes to \<open>interface\<close> and \<open>ip\<close>. \<open>show interface a\<close>
  completes to nothing: the search patterns ask for a space after the partial command, and
  the fallback reads the token after the last partial word, which \<open>show interface address\<close>
  does not have.
\<close>

theorem complete_last_partial_token:
  "get_vpp_completions catalog3 [] ''show'' = [''interface'', ''ip'']
   \<and> get_command_completions catalog3 ''show interface a'' = [''show interface address'']
   \<and> get_vpp_completions catalog3 [] ''show interface a'' = []"
  by code_simp

end
